theory Spec2Isabelle
  imports Main "HOL-Library.Sublist"
begin

section \<open>Code generation state and traversal helpers of LibCST\<close>

text \<open>
  The module \<open>libcst.nodes._internal\<close>.
  Python \<open>str\<close> values are modelled as \<^typ>\<open>string\<close>: one \<^typ>\<open>char\<close> stands for one
  code point of the Python string, so \<^const>\<open>length\<close> is Python's \<open>len\<close>. The pattern
  \<open>NEWLINE_RE\<close> tells apart only carriage return, line feed and everything else.
  Python integers are unbounded, hence \<^typ>\<open>int\<close>.
\<close>

subsection \<open>Position model\<close>

text \<open>
  \<open>CodePosition(line, column)\<close> and \<open>CodeRange(start, end)\<close>. The fields of a position
  are prefixed with \<open>pos_\<close> because the state below has fields \<open>line\<close> and \<open>column\<close> too;
  \<open>end\<close> is written \<open>end_pos\<close>.
\<close>

record CodePosition =
  pos_line :: int
  pos_column :: int

record CodeRange =
  start :: CodePosition
  end_pos :: CodePosition

definition CodePosition :: "int \<Rightarrow> int \<Rightarrow> CodePosition" where
  "CodePosition l c = \<lparr>pos_line = l, pos_column = c\<rparr>"

definition CodeRange :: "CodePosition \<Rightarrow> CodePosition \<Rightarrow> CodeRange" where
  "CodeRange s e = \<lparr>start = s, end_pos = e\<rparr>"

definition create :: "int \<times> int \<Rightarrow> int \<times> int \<Rightarrow> CodeRange" where
  "create s e = CodeRange (CodePosition (fst s) (snd s)) (CodePosition (fst e) (snd e))"


subsection \<open>The code generation state\<close>

datatype provider = BasicPositionProvider | SyntacticPositionProvider

record CodegenState =
  default_indent :: string
  default_newline :: string
  provider :: provider
  indent_tokens :: "string list"
  tokens :: "string list"
  line :: int
  column :: int

text \<open>
  The dataclass constructor with its defaults, followed by \<open>__post_init__\<close> of the base
  class and of \<open>SyntacticCodegenState\<close>.
\<close>

definition CodegenState_init :: "string \<Rightarrow> string \<Rightarrow> CodegenState" where
  "CodegenState_init di dn =
     \<lparr>default_indent = di, default_newline = dn, provider = BasicPositionProvider,
      indent_tokens = [], tokens = [], line = 1, column = 0\<rparr>"

definition SyntacticCodegenState_init :: "string \<Rightarrow> string \<Rightarrow> CodegenState" where
  "SyntacticCodegenState_init di dn =
     \<lparr>default_indent = di, default_newline = dn, provider = SyntacticPositionProvider,
      indent_tokens = [], tokens = [], line = 1, column = 0\<rparr>"

text \<open>Exceptions raised by the code of this module itself.\<close>

datatype error = IndexError string | TypeError string

abbreviation CR :: char where "CR \<equiv> CHR 0x0D"
abbreviation LF :: char where "LF \<equiv> CHR 0x0A"

text \<open>
  \<open>NEWLINE_RE.split(value)\<close> for the pattern \<open>\r\n?|\n\<close>: the text is scanned from the
  left; at a carriage return the match also takes a line feed that follows at once; the
  pieces between matches are returned. \<open>split_from cur rest\<close> carries the piece read so far.
\<close>

fun split_from :: "string \<Rightarrow> string \<Rightarrow> string list" where
  "split_from cur [] = [cur]"
| "split_from cur (c # cs) =
     (if c = CR then
        (case cs of
           [] \<Rightarrow> cur # split_from [] cs
         | d # ds \<Rightarrow> if d = LF then cur # split_from [] ds else cur # split_from [] cs)
      else if c = LF then cur # split_from [] cs
      else split_from (cur @ [c]) cs)"

definition NEWLINE_RE_split :: "string \<Rightarrow> string list" where
  "NEWLINE_RE_split v = split_from [] v"

definition update_position :: "string \<Rightarrow> CodegenState \<Rightarrow> CodegenState" where
  "update_position v s =
     (let segments = NEWLINE_RE_split v in
      if length segments = 1 then s\<lparr>column := column s + int (length v)\<rparr>
      else s\<lparr>line := line s + (int (length segments) - 1),
             column := int (length (last segments))\<rparr>)"

definition increase_indent :: "string \<Rightarrow> CodegenState \<Rightarrow> CodegenState" where
  "increase_indent v s = s\<lparr>indent_tokens := indent_tokens s @ [v]\<rparr>"

text \<open>\<open>list.pop()\<close> raises \<open>IndexError\<close> on an empty list.\<close>

definition decrease_indent :: "CodegenState \<Rightarrow> error + CodegenState" where
  "decrease_indent s =
     (if indent_tokens s = [] then Inl (IndexError ''pop from empty list'')
      else Inr (s\<lparr>indent_tokens := butlast (indent_tokens s)\<rparr>))"

definition add_indent_tokens :: "CodegenState \<Rightarrow> CodegenState" where
  "add_indent_tokens s =
     foldl (\<lambda>st token. update_position token st)
       (s\<lparr>tokens := tokens s @ indent_tokens s\<rparr>) (indent_tokens s)"

definition add_token :: "string \<Rightarrow> CodegenState \<Rightarrow> CodegenState" where
  "add_token v s = update_position v (s\<lparr>tokens := tokens s @ [v]\<rparr>)"

definition cursor :: "CodegenState \<Rightarrow> CodePosition" where
  "cursor s = CodePosition (line s) (column s)"

subsection \<open>The cursor update as the specification words it\<close>

text \<open>
  A second reading of the cursor rule, from the specification's words and not from the
  regular expression: the number of newlines, where a carriage return directly followed
  by a line feed is one newline, and the text after the last newline character.
\<close>

definition has_newline :: "string \<Rightarrow> bool" where
  "has_newline v = (CR \<in> set v \<or> LF \<in> set v)"

fun count_newlines :: "string \<Rightarrow> nat" where
  "count_newlines [] = 0"
| "count_newlines [c] = (if c = CR \<or> c = LF then 1 else 0)"
| "count_newlines (c # d # cs) =
     (if c = CR \<and> d = LF then Suc (count_newlines cs)
      else if c = CR \<or> c = LF then Suc (count_newlines (d # cs))
      else count_newlines (d # cs))"

definition text_after_last_newline :: "string \<Rightarrow> string" where
  "text_after_last_newline v = rev (takeWhile (\<lambda>c. c \<noteq> CR \<and> c \<noteq> LF) (rev v))"

text \<open>
  The number of places where a line feed directly follows a carriage return. Counting by
  characters, the newlines are the carriage returns and the line feeds, less these pairs.
\<close>

definition crlf_pairs :: "string \<Rightarrow> nat" where
  "crlf_pairs v = length (filter (\<lambda>(a, b). a = CR \<and> b = LF) (zip v (tl v)))"

subsection \<open>Node metadata\<close>

text \<open>
  Every node instance owns a dictionary \<open>_metadata\<close> from provider to range. \<open>'n\<close> is the
  identity of a node instance; the store gives each instance its dictionary. A world is
  the state of one render together with the metadata of all nodes.
\<close>

record 'n world =
  state :: CodegenState
  metadata :: "'n \<Rightarrow> provider \<rightharpoonup> CodeRange"

definition record_position :: "'n \<Rightarrow> CodeRange \<Rightarrow> 'n world \<Rightarrow> 'n world" where
  "record_position node position w =
     (if metadata w node (provider (state w)) = None
      then w\<lparr>metadata := (metadata w)(node := (metadata w node)(provider (state w) \<mapsto> position))\<rparr>
      else w)"

text \<open>
  \<open>record_syntactic_position\<close> is a context manager. The block it wraps is a function on
  worlds that also tells how it ended: \<open>None\<close> when it ran to its end, \<open>Some e\<close> when it
  raised \<open>e\<close>; either way the world is as the block left it. The base class only yields.
\<close>

definition CodegenState_record_syntactic_position ::
  "'n \<Rightarrow> ('n world \<Rightarrow> 'e option \<times> 'n world) \<Rightarrow> 'n world \<Rightarrow> 'e option \<times> 'n world" where
  "CodegenState_record_syntactic_position node body w = body w"

text \<open>
  The subclass takes \<open>start\<close> before the block; the \<open>finally\<close> clause runs on both ways
  out of the block, takes \<open>end\<close>, stores the range under \<open>self.provider\<close> without looking
  at what is there, and lets the exception, if any, go on.
\<close>

definition SyntacticCodegenState_record_syntactic_position ::
  "'n \<Rightarrow> ('n world \<Rightarrow> 'e option \<times> 'n world) \<Rightarrow> 'n world \<Rightarrow> 'e option \<times> 'n world" where
  "SyntacticCodegenState_record_syntactic_position node body w =
     (let start_pos = CodePosition (line (state w)) (column (state w));
          (raised, w') = body w;
          end_pos' = CodePosition (line (state w')) (column (state w'))
      in (raised,
          w'\<lparr>metadata := (metadata w')(node :=
                (metadata w' node)(provider (state w') \<mapsto> CodeRange start_pos end_pos'))\<rparr>))"

lemma SyntacticCodegenState_record_syntactic_position_cong [fundef_cong]:
  "n = n' \<Longrightarrow> w = w' \<Longrightarrow> (\<And>x. body x = body' x) \<Longrightarrow>
   SyntacticCodegenState_record_syntactic_position n body w =
   SyntacticCodegenState_record_syntactic_position n' body' w'"
  by (simp add: SyntacticCodegenState_record_syntactic_position_def)

subsection \<open>Renders under the syntactic strategy\<close>

text \<open>
  A node's code generation is a sequence of calls on the state, some of them inside
  \<open>with state.record_syntactic_position(node):\<close> blocks. \<open>run\<close> performs such a sequence
  on a \<open>SyntacticCodegenState\<close>; an exception ends the sequence and passes through every
  enclosing block.
\<close>

datatype 'n call =
    Add_token string
  | Add_indent_tokens
  | Increase_indent string
  | Decrease_indent
  | Record_position 'n CodeRange
  | With_syntactic_position 'n "'n call list"

fun run :: "'n call \<Rightarrow> 'n world \<Rightarrow> error option \<times> 'n world"
  and run_all :: "'n call list \<Rightarrow> 'n world \<Rightarrow> error option \<times> 'n world" where
  "run (Add_token v) w = (None, w\<lparr>state := add_token v (state w)\<rparr>)"
| "run Add_indent_tokens w = (None, w\<lparr>state := add_indent_tokens (state w)\<rparr>)"
| "run (Increase_indent v) w = (None, w\<lparr>state := increase_indent v (state w)\<rparr>)"
| "run Decrease_indent w =
     (case decrease_indent (state w) of
        Inl e \<Rightarrow> (Some e, w)
      | Inr s \<Rightarrow> (None, w\<lparr>state := s\<rparr>))"
| "run (Record_position n r) w = (None, record_position n r w)"
| "run (With_syntactic_position n body) w =
     SyntacticCodegenState_record_syntactic_position n (\<lambda>w0. run_all body w0) w"
| "run_all [] w = (None, w)"
| "run_all (c # cs) w =
     (case run c w of
        (None, w') \<Rightarrow> run_all cs w'
      | (Some e, w') \<Rightarrow> (Some e, w'))"

text \<open>
  The nodes whose block a run of the calls really enters, in the order of entry: after an
  exception no further call is made, so the blocks behind it are not entered.
\<close>

fun entered :: "'n call \<Rightarrow> 'n world \<Rightarrow> 'n list"
  and entered_all :: "'n call list \<Rightarrow> 'n world \<Rightarrow> 'n list" where
  "entered (With_syntactic_position n body) w = n # entered_all body w"
| "entered (Add_token v) w = []"
| "entered Add_indent_tokens w = []"
| "entered (Increase_indent v) w = []"
| "entered Decrease_indent w = []"
| "entered (Record_position n r) w = []"
| "entered_all [] w = []"
| "entered_all (c # cs) w =
     entered c w @ (case run c w of (None, w') \<Rightarrow> entered_all cs w' | (Some e, w') \<Rightarrow> [])"


subsection \<open>Traversal helpers\<close>

text \<open>
  \<open>node.visit(visitor)\<close> is not part of this module: it is a parameter \<open>visit\<close>. It
  returns the node's replacement or the removal sentinel, may change the visitor (\<open>'v\<close>
  is the visitor's state) and may raise (\<open>'x\<close>). A failure of a helper is either an
  exception the helper raises itself or one that came out of \<open>visit\<close>.
\<close>

datatype 'n visit_result = Node 'n | RemovalSentinel

datatype 'x failure = Here error | From_visit 'x

type_synonym ('n, 'v, 'x) visit = "'n \<Rightarrow> 'v \<Rightarrow> 'x + ('n visit_result \<times> 'v)"

text \<open>
  Modelled from the spec: \<open>MaybeSentinel\<close> is declared in the module \<open>libcst._maybe_sentinel\<close>, outside
  this module; the specification knows one placeholder value, \<open>MaybeSentinel.DEFAULT\<close>.
  A slot holds the placeholder or a real node.
\<close>

datatype 'n sentinel_slot = MaybeSentinel_DEFAULT | Real 'n

definition visit_required ::
  "('n \<Rightarrow> string) \<Rightarrow> ('n, 'v, 'x) visit \<Rightarrow> string \<Rightarrow> 'n \<Rightarrow> 'v \<Rightarrow> 'x failure + ('n \<times> 'v)" where
  "visit_required type_name visit fieldname node visitor =
     (case visit node visitor of
        Inl x \<Rightarrow> Inl (From_visit x)
      | Inr (result, visitor') \<Rightarrow>
          (case result of
             RemovalSentinel \<Rightarrow>
               Inl (Here (TypeError
                 (''We got a RemovalSentinel while visiting a '' @ type_name node @ ''. This ''
                  @ ''node's parent does not allow it to be removed.'')))
           | Node n \<Rightarrow> Inr (n, visitor')))"

definition visit_optional ::
  "('n, 'v, 'x) visit \<Rightarrow> string \<Rightarrow> 'n option \<Rightarrow> 'v \<Rightarrow> 'x failure + ('n option \<times> 'v)" where
  "visit_optional visit fieldname node visitor =
     (case node of
        None \<Rightarrow> Inr (None, visitor)
      | Some n \<Rightarrow>
          (case visit n visitor of
             Inl x \<Rightarrow> Inl (From_visit x)
           | Inr (result, visitor') \<Rightarrow>
               (case result of
                  RemovalSentinel \<Rightarrow> Inr (None, visitor')
                | Node m \<Rightarrow> Inr (Some m, visitor'))))"

definition visit_sentinel ::
  "('n, 'v, 'x) visit \<Rightarrow> string \<Rightarrow> 'n sentinel_slot \<Rightarrow> 'v \<Rightarrow>
   'x failure + ('n sentinel_slot \<times> 'v)" where
  "visit_sentinel visit fieldname node visitor =
     (case node of
        MaybeSentinel_DEFAULT \<Rightarrow> Inr (MaybeSentinel_DEFAULT, visitor)
      | Real n \<Rightarrow>
          (case visit n visitor of
             Inl x \<Rightarrow> Inl (From_visit x)
           | Inr (result, visitor') \<Rightarrow>
               (case result of
                  RemovalSentinel \<Rightarrow> Inr (MaybeSentinel_DEFAULT, visitor')
                | Node m \<Rightarrow> Inr (Real m, visitor'))))"

text \<open>
  \<open>visit_iterable\<close> is a generator: the model gives what it yields when it is run to its
  end, which is how \<open>tuple(...)\<close> in \<open>visit_sequence\<close> consumes it. The children are
  visited from the first to the last, each with the visitor as the one before left it.
\<close>

fun visit_iterable ::
  "('n, 'v, 'x) visit \<Rightarrow> string \<Rightarrow> 'n list \<Rightarrow> 'v \<Rightarrow> 'x failure + ('n list \<times> 'v)" where
  "visit_iterable visit fieldname [] visitor = Inr ([], visitor)"
| "visit_iterable visit fieldname (child # children) visitor =
     (case visit child visitor of
        Inl x \<Rightarrow> Inl (From_visit x)
      | Inr (new_child, visitor') \<Rightarrow>
          (case visit_iterable visit fieldname children visitor' of
             Inl e \<Rightarrow> Inl e
           | Inr (rest, visitor'') \<Rightarrow>
               (case new_child of
                  RemovalSentinel \<Rightarrow> Inr (rest, visitor'')
                | Node n \<Rightarrow> Inr (n # rest, visitor''))))"

definition visit_sequence ::
  "('n, 'v, 'x) visit \<Rightarrow> string \<Rightarrow> 'n list \<Rightarrow> 'v \<Rightarrow> 'x failure + ('n list \<times> 'v)" where
  "visit_sequence visit fieldname children visitor =
     visit_iterable visit fieldname children visitor"

subsection \<open>The specification's reading of a traversal of a collection\<close>

text \<open>
  What the visitor answers for each child, from the first to the last, the visitor being
  handed from one visit to the next; and the nodes that are kept of such answers.
\<close>

fun outcomes ::
  "('n, 'v, 'x) visit \<Rightarrow> 'n list \<Rightarrow> 'v \<Rightarrow> 'x + ('n visit_result list \<times> 'v)" where
  "outcomes visit [] v = Inr ([], v)"
| "outcomes visit (c # cs) v =
     (case visit c v of
        Inl x \<Rightarrow> Inl x
      | Inr (r, v') \<Rightarrow>
          (case outcomes visit cs v' of
             Inl x \<Rightarrow> Inl x
           | Inr (rs, v'') \<Rightarrow> Inr (r # rs, v'')))"

fun kept :: "'n visit_result list \<Rightarrow> 'n list" where
  "kept [] = []"
| "kept (Node n # rs) = n # kept rs"
| "kept (RemovalSentinel # rs) = kept rs"

subsection \<open>Concrete inputs\<close>

text \<open>
  Nodes are numbered. \<open>fresh_world\<close> is a new \<open>SyntacticCodegenState\<close> with no metadata
  on any node; in \<open>occupied_world\<close> node 0 already has a range under the basic provider.
  The visitors keep the list of the nodes they were shown.
\<close>

definition fresh_world :: "nat world" where
  "fresh_world =
     \<lparr>state = SyntacticCodegenState_init ''    '' ''\<newline>'', metadata = (\<lambda>n. Map.empty)\<rparr>"

definition occupied_world :: "nat world" where
  "occupied_world =
     \<lparr>state = CodegenState_init ''    '' ''\<newline>'',
      metadata = (\<lambda>n. Map.empty)(0 := [BasicPositionProvider \<mapsto> create (1, 0) (1, 5)])\<rparr>"

definition remove_all :: "(nat, nat list, unit) visit" where
  "remove_all n seen = Inr (RemovalSentinel, seen @ [n])"

definition remove_only :: "nat \<Rightarrow> (nat, nat list, unit) visit" where
  "remove_only b n seen = Inr (if n = b then RemovalSentinel else Node n, seen @ [n])"

definition replace_all :: "(nat, nat list, unit) visit" where
  "replace_all n seen = Inr (Node (n + 100), seen @ [n])"

definition Pass_type_name :: "nat \<Rightarrow> string" where
  "Pass_type_name n = ''Pass''"





section \<open>Properties\<close>

subsection \<open>Properties of the split\<close>

lemma split_from_CRLF: "split_from cur (CR # LF # ds) = cur # split_from [] ds"
  by simp

lemma split_from_CR: "cs = [] \<or> hd cs \<noteq> LF \<Longrightarrow> split_from cur (CR # cs) = cur # split_from [] cs"
  by (cases cs) simp_all

lemma split_from_LF: "split_from cur (LF # cs) = cur # split_from [] cs"
  by simp

lemma split_from_other: "c \<noteq> CR \<Longrightarrow> c \<noteq> LF \<Longrightarrow> split_from cur (c # cs) = split_from (cur @ [c]) cs"
  by simp

lemma split_from_length: "length (split_from cur v) = Suc (count_newlines v)"
proof (induction cur v rule: split_from.induct)
  case (1 cur)
  show ?case by simp
next
  case (2 cur c cs)
  show ?case
  proof (cases cs)
    case Nil
    then show ?thesis by simp
  next
    case (Cons d ds)
    with 2 show ?thesis by simp
  qed
qed

lemma split_from_ne: "split_from a v \<noteq> []"
  using split_from_length [of a v] by (metis length_0_conv nat.distinct(1))

lemma has_newline_Cons: "has_newline (c # cs) \<longleftrightarrow> c = CR \<or> c = LF \<or> has_newline cs"
  by (auto simp: has_newline_def)

lemma count_newlines_zero: "count_newlines v = 0 \<longleftrightarrow> \<not> has_newline v"
  by (induction v rule: count_newlines.induct) (simp_all add: has_newline_Cons, simp_all add: has_newline_def)

lemma text_after_Cons:
  "text_after_last_newline (c # cs) =
     (if has_newline cs then text_after_last_newline cs
      else if c = CR \<or> c = LF then cs else c # cs)"
proof (cases "has_newline cs")
  case True
  then obtain x where "x \<in> set (rev cs)" "\<not> (x \<noteq> CR \<and> x \<noteq> LF)"
    by (auto simp: has_newline_def)
  then have "takeWhile (\<lambda>c. c \<noteq> CR \<and> c \<noteq> LF) (rev cs @ [c]) =
      takeWhile (\<lambda>c. c \<noteq> CR \<and> c \<noteq> LF) (rev cs)"
    by (rule takeWhile_append1)
  with True show ?thesis by (simp add: text_after_last_newline_def)
next
  case False
  then have all: "\<And>x. x \<in> set (rev cs) \<Longrightarrow> x \<noteq> CR \<and> x \<noteq> LF"
    by (auto simp: has_newline_def)
  then have "takeWhile (\<lambda>c. c \<noteq> CR \<and> c \<noteq> LF) (rev cs @ [c]) =
      rev cs @ takeWhile (\<lambda>c. c \<noteq> CR \<and> c \<noteq> LF) [c]"
    by (rule takeWhile_append2)
  with False show ?thesis by (simp add: text_after_last_newline_def)
qed

lemma split_from_last:
  "last (split_from cur v) = (if has_newline v then text_after_last_newline v else cur @ v)"
proof (induction cur v rule: split_from.induct)
  case (1 cur)
  show ?case by (simp add: has_newline_def)
next
  case (2 cur c cs)
  note split_from.simps(2) [simp del]
  show ?case
  proof (cases "c = CR")
    case True
    show ?thesis
    proof (cases cs)
      case Nil
      have "last (split_from cur (c # cs)) = last (split_from [] cs)"
        using True Nil by (simp add: split_from_CR split_from_ne)
      also have "\<dots> = (if has_newline cs then text_after_last_newline cs else cs)"
        using 2(1) [OF True Nil] by simp
      also have "\<dots> = text_after_last_newline (c # cs)"
        using True by (simp add: text_after_Cons)
      finally show ?thesis using True by (simp add: has_newline_Cons)
    next
      case (Cons d ds)
      show ?thesis
      proof (cases "d = LF")
        case dLF: True
        have "last (split_from cur (c # cs)) = last (split_from [] ds)"
          using True Cons dLF by (simp add: split_from_CRLF split_from_ne)
        also have "\<dots> = (if has_newline ds then text_after_last_newline ds else ds)"
          using 2(2) [OF True Cons dLF] by simp
        also have "\<dots> = text_after_last_newline (c # cs)"
          using True Cons dLF by (simp add: text_after_Cons has_newline_Cons)
        finally show ?thesis using True by (simp add: has_newline_Cons)
      next
        case dLF: False
        have "last (split_from cur (c # cs)) = last (split_from [] cs)"
          using True Cons dLF by (simp add: split_from_CR split_from_ne)
        also have "\<dots> = (if has_newline cs then text_after_last_newline cs else cs)"
          using 2(3) [OF True Cons dLF] by simp
        also have "\<dots> = text_after_last_newline (c # cs)"
          using True by (simp add: text_after_Cons)
        finally show ?thesis using True by (simp add: has_newline_Cons)
      qed
    qed
  next
    case False
    show ?thesis
    proof (cases "c = LF")
      case True
      have "last (split_from cur (c # cs)) = last (split_from [] cs)"
        using True by (simp add: split_from_LF split_from_ne)
      also have "\<dots> = (if has_newline cs then text_after_last_newline cs else cs)"
        using 2(4) [OF False True] by simp
      also have "\<dots> = text_after_last_newline (c # cs)"
        using True by (simp add: text_after_Cons)
      finally show ?thesis using True by (simp add: has_newline_Cons)
    next
      case notLF: False
      have "last (split_from cur (c # cs)) = last (split_from (cur @ [c]) cs)"
        using False notLF by (simp add: split_from_other)
      also have "\<dots> = (if has_newline cs then text_after_last_newline cs else (cur @ [c]) @ cs)"
        using 2(5) [OF False notLF] by simp
      finally show ?thesis using False notLF by (simp add: text_after_Cons has_newline_Cons)
    qed
  qed
qed

lemma crlf_pairs_Cons2:
  "crlf_pairs (c # d # cs) = (if c = CR \<and> d = LF then 1 else 0) + crlf_pairs (d # cs)"
  by (simp add: crlf_pairs_def)

lemma crlf_pairs_LF: "crlf_pairs (LF # cs) = crlf_pairs cs"
  by (cases cs) (simp_all add: crlf_pairs_def)

lemma crlf_pairs_single: "crlf_pairs [c] = 0"
  by (simp add: crlf_pairs_def)

lemma count_newlines_by_characters:
  "count_newlines v + crlf_pairs v = count_list v CR + count_list v LF"
proof (induction v rule: count_newlines.induct)
  case 1
  show ?case by (simp add: crlf_pairs_def)
next
  case (2 c)
  show ?case by (simp add: crlf_pairs_single)
next
  case (3 c d cs)
  show ?case
  proof (cases "c = CR \<and> d = LF")
    case True
    with 3(1) show ?thesis
      by (simp add: crlf_pairs_Cons2 crlf_pairs_LF)
  next
    case False
    with 3(2,3) show ?thesis
      by (cases "c = CR \<or> c = LF") (auto simp: crlf_pairs_Cons2)
  qed
qed

lemma update_position_line:
  "line (update_position v s) = line s + int (count_newlines v)"
  by (simp add: update_position_def NEWLINE_RE_split_def split_from_length Let_def)

lemma update_position_column:
  "column (update_position v s) =
     (if has_newline v then int (length (text_after_last_newline v))
      else column s + int (length v))"
  using count_newlines_zero [of v]
  by (simp add: update_position_def NEWLINE_RE_split_def split_from_length split_from_last Let_def)

lemma update_position_frame:
  "tokens (update_position v s) = tokens s"
  "indent_tokens (update_position v s) = indent_tokens s"
  "provider (update_position v s) = provider s"
  "default_indent (update_position v s) = default_indent s"
  "default_newline (update_position v s) = default_newline s"
  by (simp_all add: update_position_def Let_def)

subsection \<open>Cursor arithmetic\<close>

text \<open>
  Claim C1. \<open>add_token\<close> appends the value to the output buffer and moves the cursor: when
  the value has no carriage return and no line feed, the line stays and the column grows
  by the length of the value; otherwise the line grows by the number of newlines, where
  each of \<open>\n\<close>, \<open>\r\<close> and \<open>\r\n\<close> is one newline, and the column is the length of the
  text after the last newline. From line 1, column 0, the tokens \<open>abc\<close>, \<open>de\nfgh\<close>,
  \<open>\r\n\<close>, \<open>x\<close> lead to (1,3), (2,3), (3,0), (3,1).
\<close>

theorem add_token_cursor:
  "tokens (add_token v s) = tokens s @ [v] \<and>
   (if has_newline v
    then line (add_token v s) = line s + int (count_newlines v) \<and>
         column (add_token v s) = int (length (text_after_last_newline v))
    else line (add_token v s) = line s \<and>
         column (add_token v s) = column s + int (length v)) \<and>
   count_newlines [LF] = 1 \<and> count_newlines [CR] = 1 \<and> count_newlines [CR, LF] = 1 \<and>
   count_newlines v + crlf_pairs v = count_list v CR + count_list v LF \<and>
   cursor (add_token ''abc'' (s\<lparr>line := 1, column := 0\<rparr>)) = CodePosition 1 3 \<and>
   cursor (add_token ''de\<newline>fgh'' (add_token ''abc'' (s\<lparr>line := 1, column := 0\<rparr>)))
     = CodePosition 2 3 \<and>
   cursor (add_token [CR, LF] (add_token ''de\<newline>fgh''
       (add_token ''abc'' (s\<lparr>line := 1, column := 0\<rparr>)))) = CodePosition 3 0 \<and>
   cursor (add_token ''x'' (add_token [CR, LF] (add_token ''de\<newline>fgh''
       (add_token ''abc'' (s\<lparr>line := 1, column := 0\<rparr>))))) = CodePosition 3 1"
proof -
  have general: "tokens (add_token v s) = tokens s @ [v] \<and>
   (if has_newline v
    then line (add_token v s) = line s + int (count_newlines v) \<and>
         column (add_token v s) = int (length (text_after_last_newline v))
    else line (add_token v s) = line s \<and>
         column (add_token v s) = column s + int (length v))"
    using count_newlines_zero [of v]
    by (simp add: add_token_def update_position_line update_position_column
        update_position_frame)
  have units: "count_newlines [LF] = 1 \<and> count_newlines [CR] = 1 \<and> count_newlines [CR, LF] = 1"
    by simp
  have example: "cursor (add_token ''abc'' (s\<lparr>line := 1, column := 0\<rparr>)) = CodePosition 1 3 \<and>
   cursor (add_token ''de\<newline>fgh'' (add_token ''abc'' (s\<lparr>line := 1, column := 0\<rparr>)))
     = CodePosition 2 3 \<and>
   cursor (add_token [CR, LF] (add_token ''de\<newline>fgh''
       (add_token ''abc'' (s\<lparr>line := 1, column := 0\<rparr>)))) = CodePosition 3 0 \<and>
   cursor (add_token ''x'' (add_token [CR, LF] (add_token ''de\<newline>fgh''
       (add_token ''abc'' (s\<lparr>line := 1, column := 0\<rparr>))))) = CodePosition 3 1"
    by (simp add: add_token_def update_position_def NEWLINE_RE_split_def cursor_def)
  from general units example count_newlines_by_characters [of v] show ?thesis by blast
qed

text \<open>
  The rule of C1 at a new state, for a token with a newline and for one without.
\<close>

theorem add_token_cursor_witness:
  "tokens (add_token ''de\<newline>fgh'' (CodegenState_init ''    '' ''\<newline>'')) = [''de\<newline>fgh''] \<and>
   line (add_token ''de\<newline>fgh'' (CodegenState_init ''    '' ''\<newline>'')) = 2 \<and>
   column (add_token ''de\<newline>fgh'' (CodegenState_init ''    '' ''\<newline>'')) = 3 \<and>
   line (add_token ''abc'' (CodegenState_init ''    '' ''\<newline>'')) = 1 \<and>
   column (add_token ''abc'' (CodegenState_init ''    '' ''\<newline>'')) = 3"
  using add_token_cursor [of "''de\<newline>fgh''" "CodegenState_init ''    '' ''\<newline>''"]
    add_token_cursor [of "''abc''" "CodegenState_init ''    '' ''\<newline>''"]
  by (simp add: has_newline_def text_after_last_newline_def CodegenState_init_def)

text \<open>
  Claim C10. A carriage return and a line feed emitted as two tokens move the cursor two
  lines down, to column 0; emitted as one token they move it one line down, to column 0.
  The text of the output buffer is the same in both cases, the cursors differ.
\<close>

theorem crlf_split_across_tokens:
  "line (add_token [LF] (add_token [CR] s)) = line s + 2 \<and>
   column (add_token [LF] (add_token [CR] s)) = 0 \<and>
   line (add_token [CR, LF] s) = line s + 1 \<and>
   column (add_token [CR, LF] s) = 0 \<and>
   concat (tokens (add_token [LF] (add_token [CR] s))) = concat (tokens (add_token [CR, LF] s)) \<and>
   tokens (add_token [LF] (add_token [CR] s)) = tokens s @ [[CR], [LF]] \<and>
   tokens (add_token [CR, LF] s) = tokens s @ [[CR, LF]] \<and>
   cursor (add_token [LF] (add_token [CR] s)) \<noteq> cursor (add_token [CR, LF] s)"
  by (simp add: add_token_def update_position_def NEWLINE_RE_split_def cursor_def
      CodePosition_def)

text \<open>
  C10 at a new state: line 3 against line 2, the same text.
\<close>

theorem crlf_split_across_tokens_witness:
  "cursor (add_token [LF] (add_token [CR] (CodegenState_init ''    '' ''\<newline>''))) = CodePosition 3 0 \<and>
   cursor (add_token [CR, LF] (CodegenState_init ''    '' ''\<newline>'')) = CodePosition 2 0 \<and>
   concat (tokens (add_token [LF] (add_token [CR] (CodegenState_init ''    '' ''\<newline>'')))) = [CR, LF]"
  using crlf_split_across_tokens [of "CodegenState_init ''    '' ''\<newline>''"]
  by (simp add: cursor_def CodegenState_init_def add_token_def update_position_def
      NEWLINE_RE_split_def)

subsection \<open>The indent stack\<close>

text \<open>
  Claim C8. From an empty indent stack, \<open>increase_indent("  ")\<close>, \<open>add_indent_tokens()\<close>,
  \<open>decrease_indent()\<close> succeed and end in the state they started from but for the two
  spaces appended to the output buffer and the cursor two columns further: the indent
  stack is empty again and the pop leaves the emitted indentation alone. Wherever
  \<open>decrease_indent\<close> succeeds, it changes the indent stack only.
\<close>

theorem indent_balance:
  assumes "indent_tokens s = []"
  shows "decrease_indent (add_indent_tokens (increase_indent ''  '' s)) =
           Inr (s\<lparr>tokens := tokens s @ [''  ''], column := column s + 2\<rparr>) \<and>
         tokens (add_indent_tokens (increase_indent ''  '' s)) = tokens s @ [''  ''] \<and>
         (decrease_indent t = Inr t' \<longrightarrow>
            tokens t' = tokens t \<and> line t' = line t \<and> column t' = column t \<and>
            t' = t\<lparr>indent_tokens := indent_tokens t'\<rparr>)"
proof -
  have split: "NEWLINE_RE_split ''  '' = [''  '']"
    by (simp add: NEWLINE_RE_split_def)
  have pushed: "add_indent_tokens (increase_indent ''  '' s) =
      s\<lparr>indent_tokens := [''  ''], tokens := tokens s @ [''  ''], column := column s + 2\<rparr>"
    using assms
    by (simp add: add_indent_tokens_def increase_indent_def update_position_def split Let_def)
  have popped: "decrease_indent (add_indent_tokens (increase_indent ''  '' s)) =
      Inr (s\<lparr>tokens := tokens s @ [''  ''], column := column s + 2\<rparr>)"
    using assms by (simp add: pushed decrease_indent_def)
  have frame: "decrease_indent t = Inr t' \<longrightarrow>
            tokens t' = tokens t \<and> line t' = line t \<and> column t' = column t \<and>
            t' = t\<lparr>indent_tokens := indent_tokens t'\<rparr>"
    by (auto simp: decrease_indent_def split: if_splits)
  from popped pushed frame show ?thesis by simp
qed

text \<open>
  C8 at a new state, whose indent stack is empty.
\<close>

theorem indent_balance_witness:
  "decrease_indent (add_indent_tokens (increase_indent ''  '' (CodegenState_init ''    '' ''\<newline>'')))
     = Inr ((CodegenState_init ''    '' ''\<newline>'')\<lparr>tokens := [''  ''], column := 2\<rparr>) \<and>
   indent_tokens ((CodegenState_init ''    '' ''\<newline>'')\<lparr>tokens := [''  ''], column := 2\<rparr>) = [] \<and>
   tokens ((CodegenState_init ''    '' ''\<newline>'')\<lparr>tokens := [''  ''], column := 2\<rparr>)
     = tokens (add_indent_tokens (increase_indent ''  '' (CodegenState_init ''    '' ''\<newline>''))) \<and>
   column ((CodegenState_init ''    '' ''\<newline>'')\<lparr>tokens := [''  ''], column := 2\<rparr>)
     = column (add_indent_tokens (increase_indent ''  '' (CodegenState_init ''    '' ''\<newline>'')))"
proof -
  let ?s = "CodegenState_init ''    '' ''\<newline>''"
  have empty: "indent_tokens ?s = []"
    by (simp add: CodegenState_init_def)
  have popped: "decrease_indent (add_indent_tokens (increase_indent ''  '' ?s))
      = Inr (?s\<lparr>tokens := [''  ''], column := 2\<rparr>)"
    using indent_balance [OF empty] by (simp add: CodegenState_init_def)
  have frame: "tokens (?s\<lparr>tokens := [''  ''], column := 2\<rparr>)
        = tokens (add_indent_tokens (increase_indent ''  '' ?s)) \<and>
      column (?s\<lparr>tokens := [''  ''], column := 2\<rparr>)
        = column (add_indent_tokens (increase_indent ''  '' ?s))"
    using indent_balance
      [OF empty, of "add_indent_tokens (increase_indent ''  '' ?s)"
        "?s\<lparr>tokens := [''  ''], column := 2\<rparr>"] popped
    by blast
  from popped frame show ?thesis by (simp add: CodegenState_init_def)
qed

text \<open>
  Claim C9. On an empty indent stack \<open>decrease_indent\<close> raises (the \<open>IndexError\<close> of
  \<open>list.pop\<close>); on a stack that is not empty it succeeds and removes the last token of the
  stack and nothing more, so that it undoes the \<open>increase_indent\<close> before it.
\<close>

theorem decrease_indent_pop:
  "(indent_tokens s = [] \<longrightarrow> decrease_indent s = Inl (IndexError ''pop from empty list'')) \<and>
   (indent_tokens s \<noteq> [] \<longrightarrow>
      decrease_indent s = Inr (s\<lparr>indent_tokens := butlast (indent_tokens s)\<rparr>) \<and>
      butlast (indent_tokens s) @ [last (indent_tokens s)] = indent_tokens s) \<and>
   decrease_indent (increase_indent v s) = Inr s"
  by (simp add: decrease_indent_def increase_indent_def)

text \<open>
  C9 at a new state (empty stack) and at a stack of two tokens.
\<close>

theorem decrease_indent_pop_witness:
  "decrease_indent (CodegenState_init ''    '' ''\<newline>'') = Inl (IndexError ''pop from empty list'') \<and>
   decrease_indent ((CodegenState_init ''    '' ''\<newline>'')\<lparr>indent_tokens := [''  '', ''    '']\<rparr>)
     = Inr ((CodegenState_init ''    '' ''\<newline>'')\<lparr>indent_tokens := [''  '']\<rparr>)"
  using decrease_indent_pop [of "CodegenState_init ''    '' ''\<newline>''"]
    decrease_indent_pop
      [of "(CodegenState_init ''    '' ''\<newline>'')\<lparr>indent_tokens := [''  '', ''    '']\<rparr>"]
  by (simp add: CodegenState_init_def)

subsection \<open>Recording positions\<close>

text \<open>
  Claim C3. When \<open>P1\<close> is the first range recorded for a node under a provider, that is,
  the node has none under it yet, \<open>record_position(node, P1)\<close> followed by
  \<open>record_position(node, P2)\<close> leaves the node with \<open>P1\<close>, whatever \<open>P2\<close> is. Once a
  range is recorded for a node under a provider, a later \<open>record_position\<close> for the same
  node under the same provider changes nothing: the second of two calls is always
  ignored, and both are when the node had a range \<open>P0\<close> before.
\<close>

theorem record_position_first_write_wins:
  "record_position node P2 (record_position node P1 w) = record_position node P1 w \<and>
   (metadata w node (provider (state w)) = None \<longrightarrow>
      metadata (record_position node P2 (record_position node P1 w)) node (provider (state w))
        = Some P1) \<and>
   (\<forall>P0. metadata w node (provider (state w)) = Some P0 \<longrightarrow>
      record_position node P1 w = w \<and>
      metadata (record_position node P2 (record_position node P1 w)) node (provider (state w))
        = Some P0)"
  by (simp add: record_position_def)

text \<open>
  C3 at node 7 of \<open>occupied_world\<close>, which has no range yet, and at node 0, which
  has one.
\<close>

theorem record_position_first_write_wins_witness:
  "metadata (record_position 7 (create (3, 0) (3, 5))
       (record_position 7 (create (2, 0) (2, 5)) occupied_world)) 7 BasicPositionProvider
     = Some (create (2, 0) (2, 5)) \<and>
   record_position 0 (create (2, 0) (2, 5)) occupied_world = occupied_world"
proof -
  have p: "provider (state occupied_world) = BasicPositionProvider"
    by (simp add: occupied_world_def CodegenState_init_def)
  have none: "metadata occupied_world 7 (provider (state occupied_world)) = None"
    by (simp add: occupied_world_def)
  have some: "metadata occupied_world 0 (provider (state occupied_world)) = Some (create (1, 0) (1, 5))"
    by (simp add: occupied_world_def CodegenState_init_def)
  have a: "metadata (record_position 7 (create (3, 0) (3, 5))
       (record_position 7 (create (2, 0) (2, 5)) occupied_world)) 7 BasicPositionProvider
     = Some (create (2, 0) (2, 5))"
    using record_position_first_write_wins
      [of 7 "create (3, 0) (3, 5)" "create (2, 0) (2, 5)" occupied_world,
        THEN conjunct2, THEN conjunct1, THEN mp, OF none]
    by (simp only: p)
  from record_position_first_write_wins
    [of 0 "create (3, 0) (3, 5)" "create (2, 0) (2, 5)" occupied_world] some
  have b: "record_position 0 (create (2, 0) (2, 5)) occupied_world = occupied_world"
    by blast
  from a b show ?thesis by simp
qed

text \<open>
  Claim C5. Around a block that ends in any way (\<open>raised\<close> is \<open>None\<close> for a normal end
  and \<open>Some e\<close> for an exception), \<open>record_syntactic_position\<close> of a
  \<open>SyntacticCodegenState\<close> ends the same way, leaves the state as the block left it, and
  stores for the node, under the provider of the state, the range from the cursor before
  the block to the cursor after it; no other entry of any node's metadata changes. The
  provider of a \<open>SyntacticCodegenState\<close> is the syntactic one unless the block assigns
  another.
\<close>

theorem record_syntactic_position_scope:
  assumes "body w = (raised, w')"
  shows "\<exists>w''. SyntacticCodegenState_record_syntactic_position node body w = (raised, w'') \<and>
     state w'' = state w' \<and>
     metadata w'' node (provider (state w'))
       = Some (CodeRange (cursor (state w)) (cursor (state w'))) \<and>
     (\<forall>n p. n \<noteq> node \<or> p \<noteq> provider (state w') \<longrightarrow> metadata w'' n p = metadata w' n p) \<and>
     (provider (state w') = SyntacticPositionProvider \<longrightarrow>
        metadata w'' node SyntacticPositionProvider
          = Some (CodeRange (cursor (state w)) (cursor (state w'))))"
  using assms
  by (auto simp: SyntacticCodegenState_record_syntactic_position_def cursor_def)

text \<open>
  C5 at a block that emits \<open>ab\<close> and ends normally, and at a block that emits \<open>ab\<close> and
  then pops the empty indent stack: both record (1,0)-(1,2) for node 0, the second
  passes the \<open>IndexError\<close> on.
\<close>

theorem record_syntactic_position_scope_witness:
  "fst (SyntacticCodegenState_record_syntactic_position 0
          (run_all [Add_token ''ab'']) fresh_world) = None \<and>
   metadata (snd (SyntacticCodegenState_record_syntactic_position 0
          (run_all [Add_token ''ab'']) fresh_world)) 0 SyntacticPositionProvider
     = Some (create (1, 0) (1, 2)) \<and>
   fst (SyntacticCodegenState_record_syntactic_position 0
          (run_all [Add_token ''ab'', Decrease_indent, Add_token ''cd'']) fresh_world)
     = Some (IndexError ''pop from empty list'') \<and>
   metadata (snd (SyntacticCodegenState_record_syntactic_position 0
          (run_all [Add_token ''ab'', Decrease_indent, Add_token ''cd'']) fresh_world))
        0 SyntacticPositionProvider
     = Some (create (1, 0) (1, 2))"
proof -
  let ?w' = "fresh_world\<lparr>state := add_token ''ab'' (state fresh_world)\<rparr>"
  have ok: "run_all [Add_token ''ab''] fresh_world = (None, ?w')"
    by simp
  have bad: "run_all [Add_token ''ab'', Decrease_indent, Add_token ''cd''] fresh_world
      = (Some (IndexError ''pop from empty list''), ?w')"
    by (simp add: decrease_indent_def add_token_def update_position_def fresh_world_def
        SyntacticCodegenState_init_def Let_def)
  have prov: "provider (state ?w') = SyntacticPositionProvider"
    by (simp add: add_token_def update_position_def fresh_world_def
        SyntacticCodegenState_init_def Let_def)
  have range: "CodeRange (cursor (state fresh_world)) (cursor (state ?w')) = create (1, 0) (1, 2)"
    by (simp add: add_token_def update_position_def fresh_world_def NEWLINE_RE_split_def
        SyntacticCodegenState_init_def Let_def cursor_def create_def)
  from record_syntactic_position_scope
    [where body = "run_all [Add_token ''ab'']" and w = fresh_world and node = 0, OF ok]
    prov range
  have a: "fst (SyntacticCodegenState_record_syntactic_position 0
          (run_all [Add_token ''ab'']) fresh_world) = None \<and>
   metadata (snd (SyntacticCodegenState_record_syntactic_position 0
          (run_all [Add_token ''ab'']) fresh_world)) 0 SyntacticPositionProvider
     = Some (create (1, 0) (1, 2))"
    by auto
  from record_syntactic_position_scope
    [where body = "run_all [Add_token ''ab'', Decrease_indent, Add_token ''cd'']"
       and w = fresh_world and node = 0, OF bad]
    prov range
  have b: "fst (SyntacticCodegenState_record_syntactic_position 0
          (run_all [Add_token ''ab'', Decrease_indent, Add_token ''cd'']) fresh_world)
     = Some (IndexError ''pop from empty list'') \<and>
   metadata (snd (SyntacticCodegenState_record_syntactic_position 0
          (run_all [Add_token ''ab'', Decrease_indent, Add_token ''cd'']) fresh_world))
        0 SyntacticPositionProvider
     = Some (create (1, 0) (1, 2))"
    by auto
  from a b show ?thesis by blast
qed

subsection \<open>Range nesting\<close>












lemma run_all_Cons:
  "run_all (c # cs) w =
     (if fst (run c w) = None then run_all cs (snd (run c w)) else run c w)"
  by (cases "run c w") (auto split: option.splits)

lemma entered_all_Cons:
  "entered_all (c # cs) w =
     entered c w @ (if fst (run c w) = None then entered_all cs (snd (run c w)) else [])"
  by (cases "run c w") (auto split: option.splits)


















subsection \<open>Traversal\<close>

text \<open>
  Claim C7. On the placeholder \<open>visit_sentinel\<close> returns the placeholder whatever \<open>visit\<close>
  is, with the visitor as it was: the visitor is not invoked. On a real node it returns
  the placeholder when the visit asks for removal, and the node the visit produced
  otherwise.
\<close>

theorem visit_sentinel_cases:
  "visit_sentinel visit f MaybeSentinel_DEFAULT v = Inr (MaybeSentinel_DEFAULT, v) \<and>
   (\<forall>v'. visit n v = Inr (RemovalSentinel, v') \<longrightarrow>
      visit_sentinel visit f (Real n) v = Inr (MaybeSentinel_DEFAULT, v')) \<and>
   (\<forall>m v'. visit n v = Inr (Node m, v') \<longrightarrow>
      visit_sentinel visit f (Real n) v = Inr (Real m, v')) \<and>
   (\<forall>x. visit n v = Inl x \<longrightarrow> visit_sentinel visit f (Real n) v = Inl (From_visit x))"
  by (simp add: visit_sentinel_def)

text \<open>
  C7 at the placeholder, at a node with the visitor that removes everything, and at a
  node with the visitor that replaces everything.
\<close>

theorem visit_sentinel_cases_witness:
  "visit_sentinel remove_all ''value'' MaybeSentinel_DEFAULT [] = Inr (MaybeSentinel_DEFAULT, []) \<and>
   visit_sentinel remove_all ''value'' (Real 4) [] = Inr (MaybeSentinel_DEFAULT, [4]) \<and>
   visit_sentinel replace_all ''value'' (Real 4) [] = Inr (Real 104, [4])"
  using visit_sentinel_cases [of remove_all "''value''" "[]" 4]
    visit_sentinel_cases [of replace_all "''value''" "[]" 4]
  by (simp add: remove_all_def replace_all_def)

lemma visit_iterable_outcomes:
  "visit_iterable visit f cs v =
     (case outcomes visit cs v of
        Inl x \<Rightarrow> Inl (From_visit x)
      | Inr (rs, v') \<Rightarrow> Inr (kept rs, v'))"
proof (induction cs arbitrary: v)
  case Nil
  show ?case by simp
next
  case (Cons c cs)
  show ?case
  proof (cases "visit c v")
    case (Inl x)
    then show ?thesis by simp
  next
    case (Inr p)
    obtain r v1 where p: "p = (r, v1)" by (cases p)
    show ?thesis
    proof (cases "outcomes visit cs v1")
      case (Inl x)
      with Inr p Cons.IH [of v1] show ?thesis by simp
    next
      case inner: (Inr q)
      obtain rs v2 where q: "q = (rs, v2)" by (cases q)
      with Inr p inner Cons.IH [of v1] show ?thesis by (cases r) simp_all
    qed
  qed
qed

lemma outcomes_length: "outcomes visit cs v = Inr (rs, v') \<Longrightarrow> length rs = length cs"
proof (induction cs arbitrary: v rs)
  case Nil
  then show ?case by simp
next
  case (Cons c cs)
  then show ?case
    by (auto split: sum.splits prod.splits)
qed

lemma outcomes_fixed_answers:
  assumes "\<forall>n u. \<exists>u'. visit n u = Inr (g n, u')"
  shows "\<exists>u'. outcomes visit cs v = Inr (map g cs, u')"
proof (induction cs arbitrary: v)
  case Nil
  show ?case by simp
next
  case (Cons c cs)
  from assms obtain u1 where u1: "visit c v = Inr (g c, u1)" by blast
  from Cons.IH [of u1] obtain u2 where "outcomes visit cs u1 = Inr (map g cs, u2)" by blast
  with u1 show ?case by simp
qed

lemma visit_sequence_fixed_answers:
  assumes "\<forall>n u. \<exists>u'. visit n u = Inr (g n, u')"
  shows "\<exists>u'. visit_sequence visit f cs v = Inr (kept (map g cs), u')"
proof -
  from outcomes_fixed_answers [OF assms, of cs v]
  obtain u' where "outcomes visit cs v = Inr (map g cs, u')" by blast
  then show ?thesis by (simp add: visit_sequence_def visit_iterable_outcomes)
qed

text \<open>
  Claim C2. \<open>visit_sequence\<close> visits the children from the first to the last, each once,
  and returns the nodes the visits produced, in the order of the children, without the
  children whose visit asked for removal. A visitor that always asks for removal turns
  \<open>[a, b, c]\<close> into \<open>[]\<close>; one that removes \<open>b\<close> only and keeps the others turns it
  into \<open>[a, c]\<close>.
\<close>

theorem visit_sequence_drops_removed:
  "visit_sequence visit f cs v =
     (case outcomes visit cs v of
        Inl x \<Rightarrow> Inl (From_visit x)
      | Inr (rs, v') \<Rightarrow> Inr (kept rs, v')) \<and>
   (\<forall>rs v'. outcomes visit cs v = Inr (rs, v') \<longrightarrow> length rs = length cs) \<and>
   ((\<forall>n u. \<exists>u'. visit n u = Inr (g n, u')) \<longrightarrow>
      (\<exists>u'. visit_sequence visit f cs v = Inr (kept (map g cs), u'))) \<and>
   ((\<forall>n u. \<exists>u'. visit n u = Inr (RemovalSentinel, u')) \<longrightarrow>
      (\<exists>u'. visit_sequence visit f [a, b, c] v = Inr ([], u'))) \<and>
   ((\<forall>n u. \<exists>u'. visit n u = Inr (if n = b then RemovalSentinel else Node n, u')) \<longrightarrow>
      a \<noteq> b \<longrightarrow> c \<noteq> b \<longrightarrow>
      (\<exists>u'. visit_sequence visit f [a, b, c] v = Inr ([a, c], u')))"
proof -
  have general: "visit_sequence visit f cs v =
     (case outcomes visit cs v of
        Inl x \<Rightarrow> Inl (From_visit x)
      | Inr (rs, v') \<Rightarrow> Inr (kept rs, v'))"
    by (simp add: visit_sequence_def visit_iterable_outcomes)
  have once: "\<forall>rs v'. outcomes visit cs v = Inr (rs, v') \<longrightarrow> length rs = length cs"
    by (intro allI impI) (rule outcomes_length)
  have fixed: "(\<forall>n u. \<exists>u'. visit n u = Inr (g n, u')) \<longrightarrow>
      (\<exists>u'. visit_sequence visit f cs v = Inr (kept (map g cs), u'))"
    by (intro impI) (rule visit_sequence_fixed_answers)
  have all_removed: "(\<forall>n u. \<exists>u'. visit n u = Inr (RemovalSentinel, u')) \<longrightarrow>
      (\<exists>u'. visit_sequence visit f [a, b, c] v = Inr ([], u'))"
  proof
    assume h: "\<forall>n u. \<exists>u'. visit n u = Inr (RemovalSentinel, u')"
    from visit_sequence_fixed_answers [where g = "\<lambda>n. RemovalSentinel", OF h, of f "[a, b, c]" v]
    show "\<exists>u'. visit_sequence visit f [a, b, c] v = Inr ([], u')" by simp
  qed
  have only_b: "(\<forall>n u. \<exists>u'. visit n u = Inr (if n = b then RemovalSentinel else Node n, u')) \<longrightarrow>
      a \<noteq> b \<longrightarrow> c \<noteq> b \<longrightarrow>
      (\<exists>u'. visit_sequence visit f [a, b, c] v = Inr ([a, c], u'))"
  proof (intro impI)
    assume h: "\<forall>n u. \<exists>u'. visit n u = Inr (if n = b then RemovalSentinel else Node n, u')"
      and ab: "a \<noteq> b" and cb: "c \<noteq> b"
    from visit_sequence_fixed_answers
      [where g = "\<lambda>n. if n = b then RemovalSentinel else Node n", OF h, of f "[a, b, c]" v] ab cb
    show "\<exists>u'. visit_sequence visit f [a, b, c] v = Inr ([a, c], u')" by simp
  qed
  from general once fixed all_removed only_b show ?thesis by blast
qed

text \<open>
  C2 on the children 1, 2, 3 with three visitors; each has seen 1, 2, 3 in this order.
\<close>

theorem visit_sequence_drops_removed_witness:
  "visit_sequence remove_all ''body'' [1, 2, 3] [] = Inr ([], [1, 2, 3]) \<and>
   visit_sequence (remove_only 2) ''body'' [1, 2, 3] [] = Inr ([1, 3], [1, 2, 3]) \<and>
   visit_sequence replace_all ''body'' [1, 2, 3] [] = Inr ([101, 102, 103], [1, 2, 3])"
  using visit_sequence_drops_removed [of remove_all "''body''" "[1, 2, 3]" "[]"]
    visit_sequence_drops_removed [of "remove_only 2" "''body''" "[1, 2, 3]" "[]"]
    visit_sequence_drops_removed [of replace_all "''body''" "[1, 2, 3]" "[]"]
  by (simp add: remove_all_def remove_only_def replace_all_def)

lemma visit_iterable_no_own_error: "visit_iterable visit f cs v \<noteq> Inl (Here e)"
  by (simp add: visit_iterable_outcomes split: sum.splits prod.splits)

text \<open>
  Claim C4 as the specification states it: the error of \<open>visit_required\<close> names the field
  and the node type. For the field \<open>body\<close> of a \<open>Pass\<close> node whose visit asks for
  removal, the message names \<open>Pass\<close> and does not contain \<open>body\<close>.
\<close>

theorem visit_required_counterexample:
  "visit_required Pass_type_name remove_all ''body'' 0 [] =
     Inl (Here (TypeError
       ''We got a RemovalSentinel while visiting a Pass. This node's parent does not allow it to be removed.'')) \<and>
   \<not> sublist ''body''
       ''We got a RemovalSentinel while visiting a Pass. This node's parent does not allow it to be removed.''"
proof -
  have "\<not> sublist ''body''
       ''We got a RemovalSentinel while visiting a Pass. This node's parent does not allow it to be removed.''"
    by code_simp
  then show ?thesis
    by (simp add: visit_required_def remove_all_def Pass_type_name_def)
qed

text \<open>
  Claim C4, amended. \<open>visit_required\<close> raises an error of its own exactly when the visit
  of the node asks for removal; the error is a \<open>TypeError\<close> whose message names the type
  of the node; the field name has no influence on the result. Otherwise it returns the
  node the visit produced, or passes on what the visit raised. \<open>visit_optional\<close>,
  \<open>visit_sentinel\<close>, \<open>visit_iterable\<close> and \<open>visit_sequence\<close> raise no error of their own.
\<close>

theorem visit_required_fails_on_removal:
  "((\<exists>e. visit_required type_name visit f node v = Inl (Here e)) \<longleftrightarrow>
      (\<exists>v'. visit node v = Inr (RemovalSentinel, v'))) \<and>
   (\<forall>v'. visit node v = Inr (RemovalSentinel, v') \<longrightarrow>
      visit_required type_name visit f node v =
        Inl (Here (TypeError (''We got a RemovalSentinel while visiting a '' @ type_name node @
          ''. This node's parent does not allow it to be removed.'')))) \<and>
   (\<forall>n v'. visit node v = Inr (Node n, v') \<longrightarrow>
      visit_required type_name visit f node v = Inr (n, v')) \<and>
   (\<forall>x. visit node v = Inl x \<longrightarrow>
      visit_required type_name visit f node v = Inl (From_visit x)) \<and>
   visit_required type_name visit f' node v = visit_required type_name visit f node v \<and>
   visit_optional visit f opt v \<noteq> Inl (Here e) \<and>
   visit_sentinel visit f slot v \<noteq> Inl (Here e) \<and>
   visit_iterable visit f cs v \<noteq> Inl (Here e) \<and>
   visit_sequence visit f cs v \<noteq> Inl (Here e)"
proof -
  have iff: "(\<exists>e. visit_required type_name visit f node v = Inl (Here e)) \<longleftrightarrow>
      (\<exists>v'. visit node v = Inr (RemovalSentinel, v'))"
    by (auto simp: visit_required_def split: sum.splits prod.splits visit_result.splits)
  have removal: "\<forall>v'. visit node v = Inr (RemovalSentinel, v') \<longrightarrow>
      visit_required type_name visit f node v =
        Inl (Here (TypeError (''We got a RemovalSentinel while visiting a '' @ type_name node @
          ''. This node's parent does not allow it to be removed.'')))"
    by (simp add: visit_required_def)
  have kept: "\<forall>n v'. visit node v = Inr (Node n, v') \<longrightarrow>
      visit_required type_name visit f node v = Inr (n, v')"
    by (simp add: visit_required_def)
  have passed: "\<forall>x. visit node v = Inl x \<longrightarrow>
      visit_required type_name visit f node v = Inl (From_visit x)"
    by (simp add: visit_required_def)
  have field: "visit_required type_name visit f' node v = visit_required type_name visit f node v"
    by (simp add: visit_required_def)
  have opt: "visit_optional visit f opt v \<noteq> Inl (Here e)"
    by (simp add: visit_optional_def split: option.splits sum.splits prod.splits visit_result.splits)
  have sent: "visit_sentinel visit f slot v \<noteq> Inl (Here e)"
    by (simp add: visit_sentinel_def
        split: sentinel_slot.splits sum.splits prod.splits visit_result.splits)
  have iter: "visit_iterable visit f cs v \<noteq> Inl (Here e)"
    by (rule visit_iterable_no_own_error)
  have seq: "visit_sequence visit f cs v \<noteq> Inl (Here e)"
    by (simp add: visit_sequence_def visit_iterable_no_own_error)
  from iff removal kept passed field opt sent iter seq show ?thesis by blast
qed

text \<open>
  Amended C4 at a \<open>Pass\<close> node with the visitor that removes everything, for two field
  names, and with the visitor that replaces everything.
\<close>

theorem visit_required_fails_on_removal_witness:
  "visit_required Pass_type_name remove_all ''body'' 0 [] =
     Inl (Here (TypeError
       ''We got a RemovalSentinel while visiting a Pass. This node's parent does not allow it to be removed.'')) \<and>
   visit_required Pass_type_name remove_all ''value'' 0 [] =
     visit_required Pass_type_name remove_all ''body'' 0 [] \<and>
   visit_required Pass_type_name replace_all ''body'' 0 [] = Inr (100, [0])"
  using visit_required_fails_on_removal
      [of Pass_type_name remove_all "''body''" 0 "[]" "''value''"]
    visit_required_fails_on_removal [of Pass_type_name replace_all "''body''" 0 "[]"]
  by (simp add: remove_all_def replace_all_def Pass_type_name_def)

end
